theory Spec2Isabelle
  imports Main "HOL-Library.AList"
begin

section \<open>The monitor object and the outside world\<close>

text \<open>
  The class \<open>RedditBanMonitor\<close> of \<open>app.py\<close> holds the watchlist
  (\<open>monitored_users\<close>, a Python set), the last known status of each account
  (\<open>user_status\<close>, a Python dict: \<open>True\<close> is active, \<open>False\<close> is banned) and the
  OAuth token (\<open>reddit_token\<close>, \<open>None\<close> until acquired). The dict is an association
  list with distinct keys: \<open>d[k] = v\<close> is \<open>AList.update\<close>, \<open>del d[k]\<close> is
  \<open>AList.delete\<close>, \<open>len(d)\<close> is \<open>length\<close>.

  Two more fields record what the object does to the outside world: \<open>sent\<close>, the
  alerts handed to \<open>_send_telegram_message\<close> by the monitoring loop, and \<open>requests\<close>,
  the HTTP calls issued against Reddit.
\<close>

datatype alert = AccountBanned string | AccountRestored string

datatype request = TokenRequest | Lookup string "string option"

record monitor =
  monitored_users :: "string set"
  user_status :: "(string \<times> bool) list"
  reddit_token :: "string option"
  sent :: "alert list"
  requests :: "request list"

text \<open>
  What the network answers. A token request either fails in transport or returns a
  status code and, when the body is JSON with an \<open>access_token\<close> entry, that entry.
  A lookup either fails in transport or returns a status code and a body that parses as
  JSON or does not.
\<close>

datatype token_outcome = TokenFailed | TokenResponse nat "string option"

datatype get_outcome = GetFailed | GetResponse nat bool

datatype exn = TransportError | AuthenticationFailed | MalformedTokenReply

subsection \<open>\<open>_get_reddit_token\<close>\<close>

text \<open>
  The POST raises on a transport failure; a status other than 200 raises
  \<open>Exception("Failed to authenticate with Reddit")\<close>; a 200 whose body has no
  \<open>access_token\<close> raises from \<open>token_data['access_token']\<close>. The handler logs and
  re-raises, so every failure leaves the function as an exception.
\<close>

definition get_reddit_token :: "monitor \<Rightarrow> token_outcome \<Rightarrow> (exn + unit) \<times> monitor" where
  "get_reddit_token st tr =
     (let st1 = st\<lparr>requests := requests st @ [TokenRequest]\<rparr> in
      case tr of
        TokenFailed \<Rightarrow> (Inl TransportError, st1)
      | TokenResponse code body \<Rightarrow>
          if code = 200 then
            (case body of
               None \<Rightarrow> (Inl MalformedTokenReply, st1)
             | Some tok \<Rightarrow> (Inr (), st1\<lparr>reddit_token := Some tok\<rparr>))
          else (Inl AuthenticationFailed, st1))"

subsection \<open>\<open>_check_user_status\<close>\<close>

text \<open>
  \<open>not self.reddit_token\<close> is true for \<open>None\<close> and for the empty string.
\<close>

definition no_token :: "string option \<Rightarrow> bool" where
  "no_token t = (case t of None \<Rightarrow> True | Some s \<Rightarrow> s = [])"

text \<open>
  The token is fetched before the \<open>try\<close> block, so its exception leaves the function.
  Inside the block: 200 gives \<open>True\<close> (and when the body fails to parse, the handler
  gives \<open>True\<close> as well), 404 gives \<open>False\<close>, any other code gives \<open>True\<close>, and an
  exception gives \<open>True\<close>.
\<close>

definition check_user_status ::
    "monitor \<Rightarrow> string \<Rightarrow> token_outcome \<Rightarrow> get_outcome \<Rightarrow> (exn + bool) \<times> monitor" where
  "check_user_status st username tr gr =
     (case (if no_token (reddit_token st) then get_reddit_token st tr else (Inr (), st)) of
        (Inl e, st1) \<Rightarrow> (Inl e, st1)
      | (Inr u, st1) \<Rightarrow>
          (let st2 = st1\<lparr>requests := requests st1 @ [Lookup username (reddit_token st1)]\<rparr> in
           case gr of
             GetFailed \<Rightarrow> (Inr True, st2)
           | GetResponse code json_ok \<Rightarrow>
               if code = 200 then (if json_ok then (Inr True, st2) else (Inr True, st2))
               else if code = 404 then (Inr False, st2)
               else (Inr True, st2)))"

subsection \<open>\<open>_send_telegram_message\<close>\<close>

text \<open>
  Every failure of the POST is logged and swallowed: the call never raises and changes
  nothing in the object. The model records the attempt.
\<close>

definition send_telegram_message :: "monitor \<Rightarrow> alert \<Rightarrow> monitor" where
  "send_telegram_message st message = st\<lparr>sent := sent st @ [message]\<rparr>"

subsection \<open>The identifier of a command argument\<close>

text \<open>
  Python's \<open>s.replace(old, new)\<close>: the occurrences of \<open>old\<close> are found from the left
  and do not overlap; an empty \<open>old\<close> matches before every character and at the end.
\<close>

fun replace :: "string \<Rightarrow> string \<Rightarrow> string \<Rightarrow> string" where
  "replace [] new s = new @ concat (map (\<lambda>c. c # new) s)"
| "replace (p # ps) new [] = []"
| "replace (p # ps) new (c # cs) =
     (if take (Suc (length ps)) (c # cs) = p # ps
      then new @ replace (p # ps) new (drop (length ps) cs)
      else c # replace (p # ps) new cs)"

text \<open>
  Both \<open>/add\<close> and \<open>/remove\<close> compute
  \<open>context.args[0].replace('u/', '').replace('/u/', '')\<close>.
\<close>

definition username_of_arg :: "string \<Rightarrow> string" where
  "username_of_arg a = replace ''/u/'' [] (replace ''u/'' [] a)"

text \<open>
  The claim's reading of the same step: a leading \<open>/u/\<close> or \<open>u/\<close> is dropped and the
  rest of the argument is kept.
\<close>

definition strip_prefix_spec :: "string \<Rightarrow> string" where
  "strip_prefix_spec a =
     (if take 3 a = ''/u/'' then drop 3 a
      else if take 2 a = ''u/'' then drop 2 a
      else a)"

section \<open>The command handlers\<close>

datatype reply =
    Usage
  | AlreadyMonitored string
  | Added string bool
  | NotMonitored string
  | Removed string

subsection \<open>\<open>_add_user_command\<close>\<close>

text \<open>
  The handler runs without suspension up to \<open>await self._check_user_status(username)\<close>:
  it replies and returns when there is no argument or the name is already watched.
\<close>

definition add_user_front :: "monitor \<Rightarrow> string list \<Rightarrow> reply + string" where
  "add_user_front st args =
     (case args of
        [] \<Rightarrow> Inl Usage
      | a # others \<Rightarrow>
          (let username = username_of_arg a in
           if username \<in> monitored_users st then Inl (AlreadyMonitored username)
           else Inr username))"

text \<open>
  When the probe returns, the name enters the set and its status is stored, with no
  suspension between the two. When the probe raises, the handler is left by the exception
  and nothing is stored.
\<close>

definition add_user_finish ::
    "monitor \<Rightarrow> string \<Rightarrow> token_outcome \<Rightarrow> get_outcome \<Rightarrow> (exn + reply) \<times> monitor" where
  "add_user_finish st username tr gr =
     (case check_user_status st username tr gr of
        (Inl e, st1) \<Rightarrow> (Inl e, st1)
      | (Inr is_active, st1) \<Rightarrow>
          (Inr (Added username is_active),
           st1\<lparr>monitored_users := insert username (monitored_users st1),
               user_status := AList.update username is_active (user_status st1)\<rparr>))"

definition add_user_command ::
    "monitor \<Rightarrow> string list \<Rightarrow> token_outcome \<Rightarrow> get_outcome \<Rightarrow> (exn + reply) \<times> monitor" where
  "add_user_command st args tr gr =
     (case add_user_front st args of
        Inl r \<Rightarrow> (Inr r, st)
      | Inr username \<Rightarrow> add_user_finish st username tr gr)"

subsection \<open>\<open>_remove_user_command\<close>\<close>

definition remove_user_command :: "monitor \<Rightarrow> string list \<Rightarrow> reply \<times> monitor" where
  "remove_user_command st args =
     (case args of
        [] \<Rightarrow> (Usage, st)
      | a # others \<Rightarrow>
          (let username = username_of_arg a in
           if username \<notin> monitored_users st then (NotMonitored username, st)
           else
             (let st1 = st\<lparr>monitored_users := monitored_users st - {username}\<rparr>;
                  st2 = (if username \<in> fst ` set (user_status st1)
                         then st1\<lparr>user_status := AList.delete username (user_status st1)\<rparr>
                         else st1)
              in (Removed username, st2))))"

subsection \<open>\<open>_status_command\<close>\<close>

text \<open>
  The three counts of the reply: \<open>len(self.monitored_users)\<close>, the number of \<open>True\<close>
  values of the dict, and \<open>len(self.user_status) - active_count\<close>, as Python integers.
\<close>

definition status_command :: "monitor \<Rightarrow> int \<times> int \<times> int" where
  "status_command st =
     (let active_count = int (length (filter (\<lambda>status. status) (map snd (user_status st))));
          banned_count = int (length (user_status st)) - active_count
      in (int (card (monitored_users st)), active_count, banned_count))"

section \<open>The monitoring loop\<close>

text \<open>\<open>self.user_status.get(username, True)\<close>\<close>

definition previous_status :: "monitor \<Rightarrow> string \<Rightarrow> bool" where
  "previous_status st username =
     (case map_of (user_status st) username of None \<Rightarrow> True | Some b \<Rightarrow> b)"

text \<open>The \<open>if\<close>/\<open>elif\<close> of the loop body that chooses the message.\<close>

definition transition_alert :: "bool \<Rightarrow> bool \<Rightarrow> string \<Rightarrow> alert option" where
  "transition_alert previous is_active username =
     (if previous \<and> \<not> is_active then Some (AccountBanned username)
      else if \<not> previous \<and> is_active then Some (AccountRestored username)
      else None)"

text \<open>\<open>self.user_status[username] = is_active\<close>\<close>

definition store_status :: "monitor \<Rightarrow> string \<Rightarrow> bool \<Rightarrow> monitor" where
  "store_status st username is_active =
     st\<lparr>user_status := AList.update username is_active (user_status st)\<rparr>"

text \<open>
  One pass of the \<open>for\<close> body when nothing else runs in between. The result says whether
  the body was left by an exception, which the \<open>except\<close> of the body then logs.
\<close>

definition sweep_body ::
    "monitor \<Rightarrow> string \<Rightarrow> token_outcome \<Rightarrow> get_outcome \<Rightarrow> exn option \<times> monitor" where
  "sweep_body st username tr gr =
     (case check_user_status st username tr gr of
        (Inl e, st1) \<Rightarrow> (Some e, st1)
      | (Inr is_active, st1) \<Rightarrow>
          (let st2 = (case transition_alert (previous_status st1 username) is_active username of
                        Some message \<Rightarrow> send_telegram_message st1 message
                      | None \<Rightarrow> st1)
           in (None, store_status st2 username is_active)))"

text \<open>
  The \<open>for\<close> loop over the copied set, given in the order of iteration together with
  what the network answers for each name.
\<close>

fun sweep :: "monitor \<Rightarrow> (string \<times> token_outcome \<times> get_outcome) list \<Rightarrow> monitor" where
  "sweep st [] = st"
| "sweep st ((username, tr, gr) # rest) =
     (case sweep_body st username tr gr of
        (Some e, st1) \<Rightarrow> sweep st1 rest
      | (None, st1) \<Rightarrow> sweep st1 rest)"

section \<open>The handlers and the loop on one event loop\<close>

text \<open>
  The loop and the handlers are coroutines of one asyncio event loop: each runs without
  interruption from one \<open>await\<close> to the next. The loop is asleep, or waits for the probe of
  a name, or waits for the alert it posted, or pauses between two names; the names still
  to visit are those of the copy it took. A \<open>/add\<close> that passed its membership test waits
  for its probe. A probe is taken as one step, at its completion.
\<close>

datatype loop_pc =
    Sleeping
  | Checking string "string list"
  | Sending string bool "string list"
  | Pausing "string list"

record system =
  obj :: monitor
  loop :: loop_pc
  adding :: "string list"

datatype event =
    AddReceived "string list"
  | AddProbed string token_outcome get_outcome
  | RemoveReceived "string list"
  | LoopWakes "string list"
  | LoopProbed token_outcome get_outcome
  | LoopSent
  | LoopPaused

definition next_check :: "string list \<Rightarrow> loop_pc" where
  "next_check rest = (case rest of [] \<Rightarrow> Sleeping | username # others \<Rightarrow> Checking username others)"

text \<open>
  An event that the current state does not enable leaves the state as it is. \<open>LoopWakes\<close>
  carries the order in which the copy of the set is iterated.
\<close>

fun step :: "system \<Rightarrow> event \<Rightarrow> system" where
  "step s (AddReceived args) =
     (case add_user_front (obj s) args of
        Inl r \<Rightarrow> s
      | Inr username \<Rightarrow> s\<lparr>adding := adding s @ [username]\<rparr>)"
| "step s (AddProbed username tr gr) =
     (if username \<in> set (adding s)
      then s\<lparr>obj := snd (add_user_finish (obj s) username tr gr),
             adding := remove1 username (adding s)\<rparr>
      else s)"
| "step s (RemoveReceived args) = s\<lparr>obj := snd (remove_user_command (obj s) args)\<rparr>"
| "step s (LoopWakes snap) =
     (case loop s of
        Sleeping \<Rightarrow>
          if monitored_users (obj s) = {} then s
          else if distinct snap \<and> set snap = monitored_users (obj s)
          then s\<lparr>loop := next_check snap\<rparr>
          else s
      | Checking username rest \<Rightarrow> s
      | Sending username is_active rest \<Rightarrow> s
      | Pausing rest \<Rightarrow> s)"
| "step s (LoopProbed tr gr) =
     (case loop s of
        Checking username rest \<Rightarrow>
          (case check_user_status (obj s) username tr gr of
             (Inl e, st1) \<Rightarrow> s\<lparr>obj := st1, loop := next_check rest\<rparr>
           | (Inr is_active, st1) \<Rightarrow>
               (case transition_alert (previous_status st1 username) is_active username of
                  Some message \<Rightarrow>
                    s\<lparr>obj := send_telegram_message st1 message,
                      loop := Sending username is_active rest\<rparr>
                | None \<Rightarrow>
                    s\<lparr>obj := store_status st1 username is_active, loop := Pausing rest\<rparr>))
      | Sleeping \<Rightarrow> s
      | Sending username is_active rest \<Rightarrow> s
      | Pausing rest \<Rightarrow> s)"
| "step s LoopSent =
     (case loop s of
        Sending username is_active rest \<Rightarrow>
          s\<lparr>obj := store_status (obj s) username is_active, loop := Pausing rest\<rparr>
      | Sleeping \<Rightarrow> s
      | Checking username rest \<Rightarrow> s
      | Pausing rest \<Rightarrow> s)"
| "step s LoopPaused =
     (case loop s of
        Pausing rest \<Rightarrow> s\<lparr>loop := next_check rest\<rparr>
      | Sleeping \<Rightarrow> s
      | Checking username rest \<Rightarrow> s
      | Sending username is_active rest \<Rightarrow> s)"

definition run :: "system \<Rightarrow> event list \<Rightarrow> system" where
  "run s evs = foldl step s evs"

text \<open>
  \<open>__init__\<close> leaves both containers empty and no token; \<open>initialize\<close> fetches the
  token, and the process goes on only when that succeeded.
\<close>

definition new_monitor :: monitor where
  "new_monitor =
     \<lparr>monitored_users = {}, user_status = [], reddit_token = None, sent = [], requests = []\<rparr>"

definition started :: "string \<Rightarrow> system" where
  "started tok =
     \<lparr>obj = snd (get_reddit_token new_monitor (TokenResponse 200 (Some tok))),
      loop = Sleeping, adding = []\<rparr>"

section \<open>Observations used in the statements\<close>

text \<open>What one run of a function added to the two records of outside effects.\<close>

definition new_alerts :: "monitor \<Rightarrow> monitor \<Rightarrow> alert list" where
  "new_alerts st st' = drop (length (sent st)) (sent st')"

definition new_requests :: "monitor \<Rightarrow> monitor \<Rightarrow> request list" where
  "new_requests st st' = drop (length (requests st)) (requests st')"

definition is_lookup :: "request \<Rightarrow> bool" where
  "is_lookup r = (case r of TokenRequest \<Rightarrow> False | Lookup username tok \<Rightarrow> True)"

text \<open>
  A check gets as far as its lookup when a token is held, or when none is held and the token
  request returns 200 with an \<open>access_token\<close>.
\<close>

definition token_ready :: "monitor \<Rightarrow> token_outcome \<Rightarrow> bool" where
  "token_ready st tr =
     (if no_token (reddit_token st)
      then (case tr of TokenFailed \<Rightarrow> False
            | TokenResponse code body \<Rightarrow> code = 200 \<and> body \<noteq> None)
      else True)"

text \<open>
  The lookup ends in the \<open>except\<close> branch of \<open>_check_user_status\<close>: the GET raised, or the
  body of a 200 did not parse.
\<close>

definition lookup_failed :: "get_outcome \<Rightarrow> bool" where
  "lookup_failed gr = (case gr of GetFailed \<Rightarrow> True | GetResponse code json_ok \<Rightarrow> code = 200 \<and> \<not> json_ok)"

text \<open>
  The two directions in which the set and the dict can be compared: every watched name has
  a status, and every status belongs to a watched name.
\<close>

definition members_tracked :: "monitor \<Rightarrow> bool" where
  "members_tracked st = (monitored_users st \<subseteq> fst ` set (user_status st))"

definition orphan_free :: "monitor \<Rightarrow> bool" where
  "orphan_free st = (fst ` set (user_status st) \<subseteq> monitored_users st)"

text \<open>The dict has one entry for a key, so that \<open>length\<close> is \<open>len\<close>.\<close>

definition keys_distinct :: "monitor \<Rightarrow> bool" where
  "keys_distinct st = distinct (map fst (user_status st))"

text \<open>Two states of the object with one watched account and a token.\<close>

definition alice_active :: monitor where
  "alice_active =
     \<lparr>monitored_users = {''alice''}, user_status = [(''alice'', True)],
      reddit_token = Some ''t'', sent = [], requests = []\<rparr>"

definition alice_banned :: monitor where
  "alice_banned =
     \<lparr>monitored_users = {''alice''}, user_status = [(''alice'', False)],
      reddit_token = Some ''t'', sent = [], requests = []\<rparr>"

text \<open>
  Two schedules. In the first, \<open>/remove alice\<close> is handled while the loop waits for the
  probe of \<open>alice\<close>. In the second, it is handled while the loop waits for the alert it
  posted about \<open>alice\<close>.
\<close>

definition removal_during_probe :: "event list" where
  "removal_during_probe =
     [AddReceived [''alice''],
      AddProbed ''alice'' TokenFailed (GetResponse 200 True),
      LoopWakes [''alice''],
      RemoveReceived [''alice'']]"

definition removal_during_alert :: "event list" where
  "removal_during_alert =
     [AddReceived [''alice''],
      AddProbed ''alice'' TokenFailed (GetResponse 200 True),
      LoopWakes [''alice''],
      LoopProbed TokenFailed (GetResponse 404 True),
      RemoveReceived [''u/alice''],
      LoopSent]"

section \<open>Facts about the probe and the loop body\<close>

lemmas eval_defs =
  check_user_status_def get_reddit_token_def no_token_def sweep_body_def transition_alert_def
  previous_status_def store_status_def send_telegram_message_def Let_def

lemmas run_defs =
  run_def started_def new_monitor_def add_user_front_def add_user_finish_def
  remove_user_command_def username_of_arg_def next_check_def AList.delete_eq eval_defs

lemma check_cases:
  "token_ready st tr \<Longrightarrow>
     fst (check_user_status st username tr gr) =
       Inr (case gr of GetFailed \<Rightarrow> True | GetResponse code json_ok \<Rightarrow> code \<noteq> 404)"
  by (auto simp: token_ready_def check_user_status_def get_reddit_token_def Let_def
           split: token_outcome.splits get_outcome.splits option.splits if_splits)

lemma check_raises:
  "\<not> token_ready st tr \<Longrightarrow>
     (\<exists>e. fst (check_user_status st username tr gr) = Inl e) \<and>
     requests (snd (check_user_status st username tr gr)) = requests st @ [TokenRequest]"
  by (auto simp: token_ready_def check_user_status_def get_reddit_token_def Let_def
           split: token_outcome.splits get_outcome.splits option.splits if_splits)

lemma check_keeps [simp]:
  "monitored_users (snd (check_user_status st username tr gr)) = monitored_users st"
  "user_status (snd (check_user_status st username tr gr)) = user_status st"
  "sent (snd (check_user_status st username tr gr)) = sent st"
  by (auto simp: check_user_status_def get_reddit_token_def Let_def
           split: token_outcome.splits get_outcome.splits option.splits if_splits)

lemma previous_status_check [simp]:
  "previous_status (snd (check_user_status st username tr gr)) k = previous_status st k"
  by (simp add: previous_status_def)

lemma check_result_state:
  assumes "check_user_status st username tr gr = (r, st1)"
  shows "monitored_users st1 = monitored_users st"
    and "user_status st1 = user_status st"
    and "sent st1 = sent st"
    and "previous_status st1 k = previous_status st k"
  using check_keeps [of st username tr gr] previous_status_check [of st username tr gr k] assms
  by simp_all

lemma sweep_body_returned:
  assumes "fst (check_user_status st username tr gr) = Inr is_active"
  shows "sent (snd (sweep_body st username tr gr)) =
           sent st @ (case transition_alert (previous_status st username) is_active username of
                        None \<Rightarrow> [] | Some m \<Rightarrow> [m])"
    and "user_status (snd (sweep_body st username tr gr)) =
           AList.update username is_active (user_status st)"
    and "fst (sweep_body st username tr gr) = None"
proof -
  obtain st1 where c: "check_user_status st username tr gr = (Inr is_active, st1)"
    using assms by (cases "check_user_status st username tr gr") simp
  note k = check_result_state [OF c]
  show "sent (snd (sweep_body st username tr gr)) =
           sent st @ (case transition_alert (previous_status st username) is_active username of
                        None \<Rightarrow> [] | Some m \<Rightarrow> [m])"
    by (simp add: sweep_body_def c k store_status_def send_telegram_message_def Let_def
             split: option.splits)
  show "user_status (snd (sweep_body st username tr gr)) =
           AList.update username is_active (user_status st)"
    by (simp add: sweep_body_def c k store_status_def send_telegram_message_def Let_def
             split: option.splits)
  show "fst (sweep_body st username tr gr) = None"
    by (simp add: sweep_body_def c Let_def)
qed

lemma sweep_body_raised:
  assumes "fst (check_user_status st username tr gr) = Inl e"
  shows "sent (snd (sweep_body st username tr gr)) = sent st"
    and "user_status (snd (sweep_body st username tr gr)) = user_status st"
    and "monitored_users (snd (sweep_body st username tr gr)) = monitored_users st"
    and "fst (sweep_body st username tr gr) = Some e"
proof -
  obtain st1 where c: "check_user_status st username tr gr = (Inl e, st1)"
    using assms by (cases "check_user_status st username tr gr") simp
  note k = check_result_state [OF c]
  show "sent (snd (sweep_body st username tr gr)) = sent st"
    and "user_status (snd (sweep_body st username tr gr)) = user_status st"
    and "monitored_users (snd (sweep_body st username tr gr)) = monitored_users st"
    and "fst (sweep_body st username tr gr) = Some e"
    by (simp_all add: sweep_body_def c k)
qed

lemma sweep_continues:
  "sweep st ((username, tr, gr) # rest) = sweep (snd (sweep_body st username tr gr)) rest"
  by (cases "sweep_body st username tr gr") (auto split: option.splits)

lemma check_lookup_failed:
  "lookup_failed gr \<Longrightarrow> token_ready st tr \<Longrightarrow>
     fst (check_user_status st username tr gr) = Inr True"
  by (simp add: check_cases lookup_failed_def split: get_outcome.splits)

lemma map_of_update_other:
  "k \<noteq> username \<Longrightarrow> map_of (AList.update username v al) k = map_of al k"
  by (simp add: update_conv')

lemma check_with_token:
  "\<not> no_token (reddit_token st) \<Longrightarrow>
     requests (snd (check_user_status st username tr gr)) =
       requests st @ [Lookup username (reddit_token st)] \<and>
     reddit_token (snd (check_user_status st username tr gr)) = reddit_token st"
  by (auto simp: check_user_status_def Let_def split: get_outcome.splits)

lemma check_without_token:
  "no_token (reddit_token st) \<Longrightarrow>
     requests (snd (check_user_status st username tr gr)) =
       requests st @ TokenRequest #
         (case tr of TokenFailed \<Rightarrow> []
          | TokenResponse code body \<Rightarrow>
              (if code = 200 \<and> body \<noteq> None then [Lookup username body] else []))"
  by (auto simp: check_user_status_def get_reddit_token_def Let_def
           split: token_outcome.splits get_outcome.splits option.splits)

section \<open>Transition detection\<close>

text \<open>
  Claim C1. When the probe of a name returns during a sweep, the loop body compares the
  value it returned with the stored status of the name, read as true when there is none.
  It posts exactly the alert \<open>AccountBanned\<close> iff the stored status is true and the probe
  says false, exactly the alert \<open>AccountRestored\<close> iff the stored status is false and the
  probe says true, and no alert iff the two are equal.
\<close>

theorem transition_detection:
  assumes "fst (check_user_status st username tr gr) = Inr is_active"
  shows "sent (snd (sweep_body st username tr gr)) =
           sent st @ new_alerts st (snd (sweep_body st username tr gr)) \<and>
         (new_alerts st (snd (sweep_body st username tr gr)) = [AccountBanned username]
            \<longleftrightarrow> previous_status st username \<and> \<not> is_active) \<and>
         (new_alerts st (snd (sweep_body st username tr gr)) = [AccountRestored username]
            \<longleftrightarrow> \<not> previous_status st username \<and> is_active) \<and>
         (new_alerts st (snd (sweep_body st username tr gr)) = []
            \<longleftrightarrow> previous_status st username = is_active)"
  using sweep_body_returned(1) [OF assms]
  by (auto simp: new_alerts_def transition_alert_def)

theorem transition_detection_witness:
  "fst (check_user_status alice_active ''alice'' TokenFailed (GetResponse 404 True)) = Inr False \<and>
   sent (snd (sweep_body alice_active ''alice'' TokenFailed (GetResponse 404 True)))
     = [AccountBanned ''alice'']"
  using transition_detection [of alice_active "''alice''" TokenFailed "GetResponse 404 True" False]
  by (simp add: alice_active_def eval_defs new_alerts_def)

section \<open>A failed check during a sweep\<close>

text \<open>
  A lookup that fails in transport makes \<open>_check_user_status\<close> return \<open>True\<close>. For an
  account stored as banned the loop body then posts a restoration alert and stores
  \<open>True\<close>: the stored status is not left as it was.
\<close>

theorem failed_lookup_restores_counterexample:
  "lookup_failed GetFailed \<and>
   user_status (snd (sweep_body alice_banned ''alice'' TokenFailed GetFailed)) = [(''alice'', True)] \<and>
   user_status alice_banned = [(''alice'', False)] \<and>
   new_alerts alice_banned (snd (sweep_body alice_banned ''alice'' TokenFailed GetFailed))
     = [AccountRestored ''alice'']"
  by (simp add: alice_banned_def eval_defs new_alerts_def lookup_failed_def)

text \<open>
  Claim C2, amended. When the lookup of a name fails with a network or parse error and the
  stored status of the name, read as true when there is none, is true, the status is still
  true after the loop body, no alert is posted and the status of every other name is
  untouched. When the check raises, because no token is held and the token request fails,
  the dict is unchanged and no alert is posted. In every case the sweep goes on with
  the remaining names.
\<close>

theorem failed_check_amended:
  "(lookup_failed gr \<and> token_ready st tr \<and> previous_status st username \<longrightarrow>
      previous_status (snd (sweep_body st username tr gr)) username \<and>
      new_alerts st (snd (sweep_body st username tr gr)) = [] \<and>
      (\<forall>k. k \<noteq> username \<longrightarrow>
         map_of (user_status (snd (sweep_body st username tr gr))) k = map_of (user_status st) k)) \<and>
   (\<not> token_ready st tr \<longrightarrow>
      user_status (snd (sweep_body st username tr gr)) = user_status st \<and>
      new_alerts st (snd (sweep_body st username tr gr)) = []) \<and>
   sweep st ((username, tr, gr) # rest) = sweep (snd (sweep_body st username tr gr)) rest"
proof (intro conjI impI)
  assume a: "lookup_failed gr \<and> token_ready st tr \<and> previous_status st username"
  then have c: "fst (check_user_status st username tr gr) = Inr True"
    by (simp add: check_lookup_failed)
  note r = sweep_body_returned [OF c]
  show "previous_status (snd (sweep_body st username tr gr)) username"
    by (simp add: r previous_status_def update_conv')
  show "new_alerts st (snd (sweep_body st username tr gr)) = []"
    using a by (simp add: r new_alerts_def transition_alert_def)
  show "\<forall>k. k \<noteq> username \<longrightarrow>
         map_of (user_status (snd (sweep_body st username tr gr))) k = map_of (user_status st) k"
    by (simp add: r update_conv')
next
  assume "\<not> token_ready st tr"
  then obtain e where c: "fst (check_user_status st username tr gr) = Inl e"
    using check_raises by blast
  note r = sweep_body_raised [OF c]
  show "user_status (snd (sweep_body st username tr gr)) = user_status st"
    by (simp add: r)
  show "new_alerts st (snd (sweep_body st username tr gr)) = []"
    by (simp add: r new_alerts_def)
next
  show "sweep st ((username, tr, gr) # rest) = sweep (snd (sweep_body st username tr gr)) rest"
    by (rule sweep_continues)
qed

theorem failed_check_amended_witness:
  "(lookup_failed GetFailed \<and> token_ready alice_active TokenFailed
      \<and> previous_status alice_active ''alice'') \<and>
   user_status (snd (sweep_body alice_active ''alice'' TokenFailed GetFailed)) = [(''alice'', True)] \<and>
   new_alerts alice_active (snd (sweep_body alice_active ''alice'' TokenFailed GetFailed)) = [] \<and>
   \<not> token_ready (alice_banned\<lparr>reddit_token := None\<rparr>) TokenFailed \<and>
   user_status (snd (sweep_body (alice_banned\<lparr>reddit_token := None\<rparr>) ''alice'' TokenFailed GetFailed))
     = [(''alice'', False)] \<and>
   new_alerts (alice_banned\<lparr>reddit_token := None\<rparr>)
     (snd (sweep_body (alice_banned\<lparr>reddit_token := None\<rparr>) ''alice'' TokenFailed GetFailed)) = []"
  using failed_check_amended [of GetFailed alice_active TokenFailed "''alice''" "[]"]
        failed_check_amended [of GetFailed "alice_banned\<lparr>reddit_token := None\<rparr>" TokenFailed "''alice''" "[]"]
  by (simp add: alice_active_def alice_banned_def eval_defs new_alerts_def lookup_failed_def
        token_ready_def)

section \<open>Outcomes of the status check\<close>

text \<open>
  With no token held and a token request that fails in transport, the check raises: the
  token is fetched outside the \<open>try\<close> block.
\<close>

theorem check_raises_counterexample:
  "fst (check_user_status new_monitor ''alice'' TokenFailed GetFailed) = Inl TransportError"
  by (simp add: new_monitor_def eval_defs)

text \<open>
  Claim C6, amended. Whenever the check gets as far as its lookup (a token is held, or the
  token request succeeds), a 200 gives true, a 404 gives false, any other code gives true
  and a transport failure of the lookup gives true. A false result comes from a 404 only.
  When no token is held and the token request fails, the check raises and issues no lookup.
\<close>

theorem check_outcomes_amended:
  "(token_ready st tr \<longrightarrow>
      (\<forall>json_ok. gr = GetResponse 200 json_ok \<longrightarrow>
         fst (check_user_status st username tr gr) = Inr True) \<and>
      (\<forall>json_ok. gr = GetResponse 404 json_ok \<longrightarrow>
         fst (check_user_status st username tr gr) = Inr False) \<and>
      (\<forall>code json_ok. gr = GetResponse code json_ok \<and> code \<noteq> 200 \<and> code \<noteq> 404 \<longrightarrow>
         fst (check_user_status st username tr gr) = Inr True) \<and>
      (gr = GetFailed \<longrightarrow> fst (check_user_status st username tr gr) = Inr True)) \<and>
   (fst (check_user_status st username tr gr) = Inr False \<longrightarrow>
      (\<exists>json_ok. gr = GetResponse 404 json_ok)) \<and>
   (\<not> token_ready st tr \<longrightarrow>
      (\<exists>e. fst (check_user_status st username tr gr) = Inl e) \<and>
      new_requests st (snd (check_user_status st username tr gr)) = [TokenRequest])"
proof (intro conjI impI)
  assume t: "token_ready st tr"
  show "\<forall>json_ok. gr = GetResponse 200 json_ok \<longrightarrow>
         fst (check_user_status st username tr gr) = Inr True"
    by (simp add: check_cases [OF t])
  show "\<forall>json_ok. gr = GetResponse 404 json_ok \<longrightarrow>
         fst (check_user_status st username tr gr) = Inr False"
    by (simp add: check_cases [OF t])
  show "\<forall>code json_ok. gr = GetResponse code json_ok \<and> code \<noteq> 200 \<and> code \<noteq> 404 \<longrightarrow>
         fst (check_user_status st username tr gr) = Inr True"
    by (simp add: check_cases [OF t])
  show "gr = GetFailed \<Longrightarrow> fst (check_user_status st username tr gr) = Inr True"
    by (simp add: check_cases [OF t])
next
  assume f: "fst (check_user_status st username tr gr) = Inr False"
  have "token_ready st tr"
    using f check_raises [of st tr username gr] by auto
  from check_cases [OF this, of username gr] f
  show "\<exists>json_ok. gr = GetResponse 404 json_ok"
    by (cases gr) auto
next
  assume n: "\<not> token_ready st tr"
  show "\<exists>e. fst (check_user_status st username tr gr) = Inl e"
    using check_raises [OF n] by blast
  show "new_requests st (snd (check_user_status st username tr gr)) = [TokenRequest]"
    using check_raises [OF n, of username gr] by (simp add: new_requests_def)
qed

theorem check_outcomes_amended_witness:
  "token_ready alice_active TokenFailed \<and>
   fst (check_user_status alice_active ''alice'' TokenFailed (GetResponse 404 True)) = Inr False \<and>
   fst (check_user_status alice_active ''alice'' TokenFailed (GetResponse 503 True)) = Inr True \<and>
   \<not> token_ready new_monitor TokenFailed \<and>
   new_requests new_monitor (snd (check_user_status new_monitor ''alice'' TokenFailed GetFailed))
     = [TokenRequest]"
  using check_outcomes_amended [of alice_active TokenFailed "GetResponse 404 True" "''alice''"]
        check_outcomes_amended [of alice_active TokenFailed "GetResponse 503 True" "''alice''"]
        check_outcomes_amended [of new_monitor TokenFailed GetFailed "''alice''"]
  by (auto simp: alice_active_def new_monitor_def token_ready_def no_token_def)

section \<open>Authentication\<close>

text \<open>
  With a token held, a 401 answer is one more unexpected code: the check returns true after
  its single lookup, requests no token, and keeps the token it had, although the token
  endpoint would have issued a fresh one.
\<close>

theorem no_retry_counterexample:
  "fst (check_user_status alice_active ''alice'' (TokenResponse 200 (Some ''fresh''))
          (GetResponse 401 True)) = Inr True \<and>
   new_requests alice_active
     (snd (check_user_status alice_active ''alice'' (TokenResponse 200 (Some ''fresh''))
          (GetResponse 401 True))) = [Lookup ''alice'' (Some ''t'')] \<and>
   reddit_token (snd (check_user_status alice_active ''alice'' (TokenResponse 200 (Some ''fresh''))
          (GetResponse 401 True))) = Some ''t''"
  by (simp add: alice_active_def eval_defs new_requests_def)

text \<open>
  Claim C7, amended. A check requests a token, once and before anything else, when it
  starts with no token held. When it starts with a token, it issues exactly one lookup with
  that token and keeps the token, whatever the lookup answers. No check issues more than
  one lookup.
\<close>

theorem authentication_amended:
  "(no_token (reddit_token st) \<longrightarrow>
      hd (new_requests st (snd (check_user_status st username tr gr))) = TokenRequest \<and>
      length (filter (\<lambda>r. r = TokenRequest)
        (new_requests st (snd (check_user_status st username tr gr)))) = 1) \<and>
   (\<not> no_token (reddit_token st) \<longrightarrow>
      new_requests st (snd (check_user_status st username tr gr))
        = [Lookup username (reddit_token st)] \<and>
      reddit_token (snd (check_user_status st username tr gr)) = reddit_token st) \<and>
   length (filter is_lookup (new_requests st (snd (check_user_status st username tr gr)))) \<le> 1"
proof (cases "no_token (reddit_token st)")
  case True
  show ?thesis
    using True check_without_token [OF True, of username tr gr]
    by (auto simp: new_requests_def is_lookup_def split: token_outcome.splits)
next
  case False
  show ?thesis
    using False check_with_token [OF False, of username tr gr]
    by (simp add: new_requests_def is_lookup_def)
qed

theorem authentication_amended_witness:
  "no_token (reddit_token new_monitor) \<and>
   hd (new_requests new_monitor
        (snd (check_user_status new_monitor ''alice'' (TokenResponse 200 (Some ''t''))
           (GetResponse 200 True)))) = TokenRequest \<and>
   \<not> no_token (reddit_token alice_active) \<and>
   new_requests alice_active
     (snd (check_user_status alice_active ''alice'' (TokenResponse 200 (Some ''fresh''))
        (GetResponse 401 True))) = [Lookup ''alice'' (Some ''t'')]"
  using authentication_amended [of new_monitor "''alice''" "TokenResponse 200 (Some ''t'')"
          "GetResponse 200 True"]
        authentication_amended [of alice_active "''alice''" "TokenResponse 200 (Some ''fresh'')"
          "GetResponse 401 True"]
  by (simp add: new_monitor_def alice_active_def no_token_def)

section \<open>Adding a watched name again\<close>

text \<open>
  Claim C8. \<open>/add\<close> with a name that is already watched replies that it is, and leaves the
  whole object as it was: the set, the stored statuses and the record of requests, so the
  name is not probed again.
\<close>

theorem add_existing_is_noop:
  assumes "username_of_arg a \<in> monitored_users st"
  shows "add_user_command st (a # args) tr gr = (Inr (AlreadyMonitored (username_of_arg a)), st)"
  using assms by (simp add: add_user_command_def add_user_front_def)

theorem add_existing_is_noop_witness:
  "username_of_arg ''u/alice'' \<in> monitored_users alice_banned \<and>
   add_user_command alice_banned [''u/alice''] TokenFailed (GetResponse 200 True)
     = (Inr (AlreadyMonitored ''alice''), alice_banned)"
  using add_existing_is_noop [of "''u/alice''" alice_banned "[]" TokenFailed "GetResponse 200 True"]
  by (simp add: alice_banned_def username_of_arg_def)

section \<open>The identifier of a command argument\<close>

text \<open>
  Claim C9. The identifier is meant to be the argument without a leading \<open>u/\<close> or
  \<open>/u/\<close>. For the argument \<open>/u/alice\<close> the first \<open>replace\<close> removes \<open>u/\<close> and leaves
  \<open>/alice\<close>, in which the second finds nothing: the identifier keeps the slash.
\<close>

theorem slash_prefix_left_behind:
  "username_of_arg ''/u/alice'' = ''/alice'' \<and> strip_prefix_spec ''/u/alice'' = ''alice''"
  by (simp add: username_of_arg_def strip_prefix_spec_def)

text \<open>Arguments without a slash, and such names behind \<open>u/\<close>, come out as meant.\<close>

lemma replace_absent:
  "x \<in> set (p # ps) \<Longrightarrow> x \<notin> set s \<Longrightarrow> replace (p # ps) new s = s"
proof (induction s)
  case Nil
  show ?case by simp
next
  case (Cons c cs)
  have "take (Suc (length ps)) (c # cs) \<noteq> p # ps"
  proof
    assume "take (Suc (length ps)) (c # cs) = p # ps"
    then have "set (p # ps) \<subseteq> set (c # cs)"
      by (metis set_take_subset)
    with Cons.prems show False by blast
  qed
  moreover have "replace (p # ps) new cs = cs"
    using Cons by simp
  ultimately show ?case
    by (simp del: take_Suc_Cons)
qed

lemma username_of_plain_arg:
  "CHR ''/'' \<notin> set a \<Longrightarrow> username_of_arg a = a"
  by (simp add: username_of_arg_def replace_absent [where x = "CHR ''/''"])

lemma username_of_u_prefixed_arg:
  "CHR ''/'' \<notin> set a \<Longrightarrow> username_of_arg (''u/'' @ a) = a"
  by (simp add: username_of_arg_def replace_absent [where x = "CHR ''/''"])

section \<open>The set and the dict under interleaving\<close>

lemma dom_delete: "fst ` set (AList.delete k al) = fst ` set al - {k}"
  by (auto simp: AList.delete_eq)

lemma add_finish_tracked:
  "members_tracked st \<Longrightarrow> members_tracked (snd (add_user_finish st username tr gr))"
proof -
  assume m: "members_tracked st"
  obtain r st1 where c: "check_user_status st username tr gr = (r, st1)"
    by (cases "check_user_status st username tr gr")
  note k = check_result_state [OF c]
  show ?thesis
    using m by (cases r) (auto simp: add_user_finish_def c k members_tracked_def dom_update)
qed

lemma remove_tracked:
  "members_tracked st \<Longrightarrow> members_tracked (snd (remove_user_command st args))"
  by (cases args) (auto simp: remove_user_command_def members_tracked_def Let_def dom_delete)

lemma store_tracked:
  "members_tracked st \<Longrightarrow> members_tracked (store_status st username v)"
  by (auto simp: members_tracked_def store_status_def dom_update)

lemma send_tracked:
  "members_tracked st \<Longrightarrow> members_tracked (send_telegram_message st m)"
  by (simp add: members_tracked_def send_telegram_message_def)

lemma check_tracked:
  "check_user_status st username tr gr = (r, st1) \<Longrightarrow> members_tracked st \<Longrightarrow> members_tracked st1"
  using check_result_state [of st username tr gr r st1] by (simp add: members_tracked_def)

lemma step_tracked:
  assumes "members_tracked (obj s)"
  shows "members_tracked (obj (step s e))"
proof (cases e)
  case (AddReceived args)
  then show ?thesis using assms by (simp split: sum.splits)
next
  case (AddProbed username tr gr)
  then show ?thesis using assms by (simp add: add_finish_tracked)
next
  case (RemoveReceived args)
  then show ?thesis using assms by (simp add: remove_tracked)
next
  case (LoopWakes snap)
  then show ?thesis using assms by (simp split: loop_pc.splits)
next
  case (LoopProbed tr gr)
  then show ?thesis using assms
    by (auto split: loop_pc.splits prod.splits sum.splits option.splits
             intro: store_tracked send_tracked dest: check_tracked)
next
  case LoopSent
  then show ?thesis using assms by (simp add: store_tracked split: loop_pc.splits)
next
  case LoopPaused
  then show ?thesis using assms by (simp split: loop_pc.splits)
qed

lemma run_tracked:
  "members_tracked (obj s) \<Longrightarrow> members_tracked (obj (run s evs))"
  unfolding run_def by (induction evs arbitrary: s) (simp_all add: step_tracked)

lemma started_tracked: "members_tracked (obj (started tok))"
  by (simp add: members_tracked_def started_def new_monitor_def get_reddit_token_def)

text \<open>
  The association list keeps its keys distinct in every reachable state, and the two steps
  of the loop for one name, taken with nothing in between, are the loop body.
\<close>

lemma step_keys_distinct:
  assumes "keys_distinct (obj s)"
  shows "keys_distinct (obj (step s e))"
proof (cases e)
  case (AddReceived args)
  then show ?thesis using assms by (simp split: sum.splits)
next
  case (AddProbed username tr gr)
  obtain r st1 where c: "check_user_status (obj s) username tr gr = (r, st1)"
    by (cases "check_user_status (obj s) username tr gr")
  note k = check_result_state [OF c]
  show ?thesis
    using assms AddProbed
    by (cases r) (auto simp: add_user_finish_def c k keys_distinct_def distinct_update)
next
  case (RemoveReceived args)
  then show ?thesis using assms
    by (cases args) (auto simp: remove_user_command_def keys_distinct_def Let_def distinct_delete)
next
  case (LoopWakes snap)
  then show ?thesis using assms by (simp split: loop_pc.splits)
next
  case (LoopProbed tr gr)
  show ?thesis
  proof (cases "loop s")
    case (Checking username rest)
    obtain r st1 where c: "check_user_status (obj s) username tr gr = (r, st1)"
      by (cases "check_user_status (obj s) username tr gr")
    note k = check_result_state [OF c]
    show ?thesis
      using assms LoopProbed Checking
      by (cases r)
         (auto simp: c k keys_distinct_def store_status_def send_telegram_message_def
                     distinct_update split: option.splits)
  qed (use assms LoopProbed in simp_all)
next
  case LoopSent
  then show ?thesis using assms
    by (auto simp: keys_distinct_def store_status_def distinct_update split: loop_pc.splits)
next
  case LoopPaused
  then show ?thesis using assms by (simp split: loop_pc.splits)
qed

lemma run_keys_distinct:
  "distinct (map fst (user_status (obj (run (started tok) evs))))"
proof -
  have "keys_distinct (obj s) \<Longrightarrow> keys_distinct (obj (run s evs))" for s
    unfolding run_def by (induction evs arbitrary: s) (simp_all add: step_keys_distinct)
  moreover have "keys_distinct (obj (started tok))"
    by (simp add: keys_distinct_def started_def new_monitor_def get_reddit_token_def)
  ultimately show ?thesis by (simp add: keys_distinct_def)
qed

lemma loop_steps_agree:
  assumes "loop s = Checking username rest"
  shows "obj (step (step s (LoopProbed tr gr)) LoopSent) = snd (sweep_body (obj s) username tr gr)"
proof -
  obtain r st1 where c: "check_user_status (obj s) username tr gr = (r, st1)"
    by (cases "check_user_status (obj s) username tr gr")
  show ?thesis
    using assms
    by (cases r; cases rest)
       (auto simp: c sweep_body_def next_check_def Let_def store_status_def
                   send_telegram_message_def split: option.splits)
qed

text \<open>
  Claim C10. In every state that the handlers and the loop can reach from the start, in any
  interleaving, every watched name has a stored status: \<open>/add\<close> inserts the name and stores
  the probed status in one step, and \<open>/remove\<close> takes both away in one step.
\<close>

theorem members_always_have_status:
  "monitored_users (obj (run (started tok) evs))
     \<subseteq> fst ` set (user_status (obj (run (started tok) evs)))"
  using run_tracked [OF started_tracked, of tok evs] by (simp add: members_tracked_def)

theorem members_always_have_status_witness:
  "monitored_users (obj (run (started ''t'')
      [AddReceived [''alice''], AddProbed ''alice'' TokenFailed (GetResponse 404 True)]))
     = {''alice''} \<and>
   ''alice'' \<in> fst ` set (user_status (obj (run (started ''t'')
      [AddReceived [''alice''], AddProbed ''alice'' TokenFailed (GetResponse 404 True)])))"
  using members_always_have_status [of "''t''"
      "[AddReceived [''alice''], AddProbed ''alice'' TokenFailed (GetResponse 404 True)]"]
  by (simp add: run_defs)

text \<open>What \<open>/remove\<close> leaves behind for a watched name.\<close>

lemma remove_forgets:
  assumes "username_of_arg a \<in> monitored_users st"
  shows "fst (remove_user_command st (a # args)) = Removed (username_of_arg a)"
    and "username_of_arg a \<notin> monitored_users (snd (remove_user_command st (a # args)))"
    and "map_of (user_status (snd (remove_user_command st (a # args)))) (username_of_arg a) = None"
  using assms
  by (auto simp: remove_user_command_def Let_def map_of_eq_None_iff dom_delete)

text \<open>
  Claim C3. After \<open>/remove alice\<close> the name is in neither container. The loop, which
  took its copy of the set before, is still waiting for the probe of \<open>alice\<close>; when the
  probe returns it stores the status unconditionally, so the dict has an entry for
  \<open>alice\<close> again while the set does not.
\<close>

theorem late_write_after_removal:
  "monitored_users (obj (run (started ''t'') removal_during_probe)) = {} \<and>
   user_status (obj (run (started ''t'') removal_during_probe)) = [] \<and>
   loop (run (started ''t'') removal_during_probe) = Checking ''alice'' [] \<and>
   user_status (obj (run (started ''t'')
      (removal_during_probe @ [LoopProbed TokenFailed (GetResponse 200 True)])))
     = [(''alice'', True)] \<and>
   monitored_users (obj (run (started ''t'')
      (removal_during_probe @ [LoopProbed TokenFailed (GetResponse 200 True)]))) = {}"
  by (simp add: removal_during_probe_def run_defs)

text \<open>
  Claim C4. A state with a status for a name that is not watched is reachable: \<open>alice\<close>
  is removed while the loop waits for the alert it posted about that name, and the loop
  stores the status of the name when it resumes.
\<close>

theorem orphaned_status_reachable:
  "\<not> orphan_free (obj (run (started ''t'') removal_during_alert)) \<and>
   user_status (obj (run (started ''t'') removal_during_alert)) = [(''alice'', False)] \<and>
   monitored_users (obj (run (started ''t'') removal_during_alert)) = {} \<and>
   sent (obj (run (started ''t'') removal_during_alert)) = [AccountBanned ''alice'']"
  by (simp add: removal_during_alert_def orphan_free_def run_defs)

section \<open>The counts of \<open>/status\<close>\<close>

text \<open>
  The two account counts add up to the number of stored statuses, and in every reachable
  state the number of watched names is at most that number.
\<close>

lemma status_counts_sum:
  "status_command st = (watched, active_count, banned_count) \<Longrightarrow>
     active_count + banned_count = int (length (user_status st)) \<and>
     0 \<le> active_count \<and> 0 \<le> banned_count \<and>
     banned_count = int (length (filter (\<lambda>status. \<not> status) (map snd (user_status st))))"
proof -
  assume a: "status_command st = (watched, active_count, banned_count)"
  have "length (filter (\<lambda>status. status) (map snd (user_status st)))
        + length (filter (\<lambda>status. \<not> status) (map snd (user_status st)))
        = length (user_status st)"
    using sum_length_filter_compl [of "\<lambda>status. status" "map snd (user_status st)"] by simp
  then show ?thesis
    using a by (auto simp: status_command_def Let_def)
qed

lemma watchlist_at_most_tracked:
  "card (monitored_users (obj (run (started tok) evs)))
     \<le> length (user_status (obj (run (started tok) evs)))"
proof -
  let ?st = "obj (run (started tok) evs)"
  have "monitored_users ?st \<subseteq> fst ` set (user_status ?st)"
    using run_tracked [OF started_tracked, of tok evs] by (simp add: members_tracked_def)
  then have "card (monitored_users ?st) \<le> card (fst ` set (user_status ?st))"
    by (simp add: card_mono)
  also have "\<dots> \<le> card (set (user_status ?st))" by (simp add: card_image_le)
  also have "\<dots> \<le> length (user_status ?st)" by (rule card_length)
  finally show ?thesis .
qed

text \<open>
  Claim C5. In the state reached when \<open>alice\<close> is removed during its probe, \<open>/status\<close>
  reports no watched name, one active account and no banned one: the number of stored
  statuses exceeds the size of the watchlist.
\<close>

theorem status_counts_exceed_watchlist:
  "status_command (obj (run (started ''t'')
      (removal_during_probe @ [LoopProbed TokenFailed (GetResponse 200 True)]))) = (0, 1, 0)"
  by (simp add: removal_during_probe_def status_command_def run_defs)

end
